theory Spec2Isabelle
  imports Main
begin

section \<open>Strings and the width library\<close>

text \<open>
  A Python \<open>str\<close> is a sequence of Unicode code points, and \<open>len\<close> counts code
  points. The box glyphs are outside ASCII, so a string is a list of code points
  (natural numbers), not a list of bytes.
\<close>

type_synonym ustring = "nat list"

definition ustr :: "string \<Rightarrow> ustring" where
  "ustr s = map of_char s"

abbreviation ESC :: nat where "ESC \<equiv> 27"
abbreviation LBRACKET :: nat where "LBRACKET \<equiv> 91"
abbreviation LOWER_M :: nat where "LOWER_M \<equiv> 109"
abbreviation SEMICOLON :: nat where "SEMICOLON \<equiv> 59"
abbreviation SPACE :: nat where "SPACE \<equiv> 32"
abbreviation TOP_LEFT :: nat where "TOP_LEFT \<equiv> 9484"
abbreviation TOP_RIGHT :: nat where "TOP_RIGHT \<equiv> 9488"
abbreviation BOTTOM_LEFT :: nat where "BOTTOM_LEFT \<equiv> 9492"
abbreviation BOTTOM_RIGHT :: nat where "BOTTOM_RIGHT \<equiv> 9496"
abbreviation HORIZONTAL :: nat where "HORIZONTAL \<equiv> 9472"
abbreviation VERTICAL :: nat where "VERTICAL \<equiv> 9474"

text \<open>
  Python's \<open>c * n\<close> for a one-character string \<open>c\<close> and an integer \<open>n\<close>: the
  empty string when \<open>n\<close> is negative.
\<close>

definition str_mul :: "nat \<Rightarrow> int \<Rightarrow> ustring" where
  "str_mul c n = replicate (nat n) c"

text \<open>
  The module-level flag \<open>HAS_WCWIDTH\<close> and the character width table of the external
  \<open>wcwidth\<close> package are the environment of every width computation. The table is a
  parameter: negative for a control character, otherwise the number of columns.
\<close>

record width_env =
  HAS_WCWIDTH :: bool
  wcwidth :: "nat \<Rightarrow> int"

text \<open>
  Modelled from the spec: \<open>wcswidth\<close> of the external \<open>wcwidth\<close> package, which
  is imported and not part of the source. The width of a string is the sum of the widths
  of its characters, and \<open>-1\<close> as soon as one character is not printable.
\<close>

fun wcswidth_loop :: "(nat \<Rightarrow> int) \<Rightarrow> int \<Rightarrow> ustring \<Rightarrow> int" where
  "wcswidth_loop wcw width [] = width"
| "wcswidth_loop wcw width (c # cs) =
     (if wcw c < 0 then - 1 else wcswidth_loop wcw (width + wcw c) cs)"

definition wcswidth :: "width_env \<Rightarrow> ustring \<Rightarrow> int" where
  "wcswidth env pwcs = wcswidth_loop (wcwidth env) 0 pwcs"

section \<open>The visual width measurer\<close>

text \<open>
  The regular expression \<open>\x1b\[[0-9;]*m\<close>. After \<open>ESC [\<close> the class
  \<open>[0-9;]*\<close> is greedy, and \<open>m\<close> is not in the class, so the match is decided by
  reading on to the first character outside the class.
\<close>

definition is_sgr_param :: "nat \<Rightarrow> bool" where
  "is_sgr_param c \<longleftrightarrow> (48 \<le> c \<and> c \<le> 57) \<or> c = SEMICOLON"

fun match_sgr_tail :: "ustring \<Rightarrow> ustring option" where
  "match_sgr_tail [] = None"
| "match_sgr_tail (c # cs) =
     (if is_sgr_param c then match_sgr_tail cs
      else if c = LOWER_M then Some cs
      else None)"

fun match_sgr :: "ustring \<Rightarrow> ustring option" where
  "match_sgr (a # b # cs) = (if a = ESC \<and> b = LBRACKET then match_sgr_tail cs else None)"
| "match_sgr _ = None"

text \<open>
  \<open>ansi_pattern.sub('', text)\<close>: scan from the left, drop every match, keep every
  other character. A match is never empty, so the scan ends.
\<close>

function strip_ansi :: "ustring \<Rightarrow> ustring" where
  "strip_ansi [] = []"
| "strip_ansi (c # cs) =
     (case match_sgr (c # cs) of
        Some rest \<Rightarrow> strip_ansi rest
      | None \<Rightarrow> c # strip_ansi cs)"
  by pat_completeness auto
termination
proof (relation "measure length")
  show "wf (measure length)" by simp
next
  fix c :: nat and cs rest :: ustring
  assume m: "match_sgr (c # cs) = Some rest"
  have tail: "match_sgr_tail xs = Some r \<Longrightarrow> length r < length xs" for xs r
    by (induction xs) (auto split: if_splits)
  have "length rest < length (c # cs)"
    using m by (cases "c # cs" rule: match_sgr.cases) (auto split: if_splits dest: tail)
  then show "(rest, c # cs) \<in> measure length" by simp
next
  fix c :: nat and cs :: ustring
  show "(cs, c # cs) \<in> measure length" by simp
qed

definition get_visual_width :: "width_env \<Rightarrow> ustring \<Rightarrow> int" where
  "get_visual_width env text =
     (let clean_text = strip_ansi text in
      if HAS_WCWIDTH env \<and> wcswidth env clean_text \<ge> 0
      then wcswidth env clean_text
      else int (length clean_text))"

section \<open>The box\<close>

record TUIBox =
  content_width :: int
  padding_left :: int
  padding_right :: int
  padding_top :: int
  padding_bottom :: int
  border_width :: int
  margin_left :: int
  margin_right :: int
  margin_top :: int
  margin_bottom :: int

definition calculate_dimensions :: "TUIBox \<Rightarrow> int \<times> int" where
  "calculate_dimensions box =
     (let h_frame = margin_left box + border_width box + padding_left box
                    + padding_right box + border_width box + margin_right box;
          v_frame = margin_top box + border_width box + padding_top box
                    + padding_bottom box + border_width box + margin_bottom box
      in (h_frame, v_frame))"

definition get_total_width :: "TUIBox \<Rightarrow> int" where
  "get_total_width box = (let (h_frame, _) = calculate_dimensions box
                          in content_width box + h_frame)"

definition get_interior_width :: "TUIBox \<Rightarrow> int" where
  "get_interior_width box = padding_left box + content_width box + padding_right box"

definition render_empty_line :: "TUIBox \<Rightarrow> ustring" where
  "render_empty_line box =
     (let interior_width = get_interior_width box;
          margin = str_mul SPACE (margin_left box)
      in if border_width box > 0
         then margin @ [VERTICAL] @ str_mul SPACE interior_width @ [VERTICAL]
         else str_mul SPACE (margin_left box + interior_width + margin_right box))"

definition render_content_line :: "width_env \<Rightarrow> TUIBox \<Rightarrow> ustring \<Rightarrow> ustring \<Rightarrow> ustring" where
  "render_content_line env box content alignment =
     (let visual_width = get_visual_width env content;
          content_padding = content_width box - visual_width;
          aligned_content =
            (if alignment = ustr ''center'' then
               (let left_pad = content_padding div 2;
                    right_pad = content_padding - left_pad
                in str_mul SPACE left_pad @ content @ str_mul SPACE right_pad)
             else if alignment = ustr ''right'' then
               str_mul SPACE content_padding @ content
             else content @ str_mul SPACE content_padding);
          margin = str_mul SPACE (margin_left box);
          pad_left = str_mul SPACE (padding_left box);
          pad_right = str_mul SPACE (padding_right box)
      in if border_width box > 0
         then margin @ [VERTICAL] @ pad_left @ aligned_content @ pad_right @ [VERTICAL]
         else margin @ pad_left @ aligned_content @ pad_right)"

text \<open>
  \<open>render\<close> appends to \<open>result\<close> in seven steps; a \<open>for _ in range(n)\<close> loop
  appends \<open>n\<close> copies, none when \<open>n\<close> is negative.
\<close>

definition render :: "width_env \<Rightarrow> TUIBox \<Rightarrow> ustring list \<Rightarrow> ustring \<Rightarrow> ustring list" where
  "render env box lines alignment =
     (let interior_width = get_interior_width box in
      replicate (nat (margin_top box)) []
      @ (if border_width box > 0
         then [str_mul SPACE (margin_left box) @ [TOP_LEFT]
               @ str_mul HORIZONTAL interior_width @ [TOP_RIGHT]]
         else [])
      @ replicate (nat (padding_top box)) (render_empty_line box)
      @ map (\<lambda>line. render_content_line env box line alignment) lines
      @ replicate (nat (padding_bottom box)) (render_empty_line box)
      @ (if border_width box > 0
         then [str_mul SPACE (margin_left box) @ [BOTTOM_LEFT]
               @ str_mul HORIZONTAL interior_width @ [BOTTOM_RIGHT]]
         else [])
      @ replicate (nat (margin_bottom box)) [])"

section \<open>Validation\<close>

text \<open>
  \<open>validate_box\<close> returns a boolean and prints a report. The report is part of the
  result here: one entry for the empty input, one per mismatching line (line number
  \<open>i+1\<close>, expected width, actual width, the line and its \<open>len\<close>), and one for the
  success message.
\<close>

datatype report =
  NoLines
| Mismatch nat int int ustring nat
| AllValid nat int

text \<open>The local helper \<open>get_width\<close> of \<open>validate_box\<close>.\<close>

definition get_width :: "width_env \<Rightarrow> ustring \<Rightarrow> int" where
  "get_width env text =
     (if HAS_WCWIDTH env \<and> wcswidth env text \<ge> 0
      then wcswidth env text
      else int (length text))"

fun validate_lines ::
  "width_env \<Rightarrow> int \<Rightarrow> nat \<Rightarrow> ustring list \<Rightarrow> bool \<times> report list \<Rightarrow> bool \<times> report list" where
  "validate_lines env expected i [] st = st"
| "validate_lines env expected i (line # rest) (all_valid, out) =
     (let actual_width = get_width env line in
      if actual_width \<noteq> expected
      then validate_lines env expected (Suc i) rest
             (False, out @ [Mismatch (i + 1) expected actual_width line (length line)])
      else validate_lines env expected (Suc i) rest (all_valid, out))"

definition validate_box :: "width_env \<Rightarrow> ustring list \<Rightarrow> int option \<Rightarrow> bool \<times> report list" where
  "validate_box env lines expected_width =
     (case lines of
        [] \<Rightarrow> (False, [NoLines])
      | first # _ \<Rightarrow>
          (let expected = (case expected_width of
                             None \<Rightarrow> get_width env first
                           | Some e \<Rightarrow> e);
               (all_valid, out) = validate_lines env expected 0 lines (True, [])
           in if all_valid
              then (True, out @ [AllValid (length lines) expected])
              else (False, out)))"

section \<open>Sample environments\<close>

text \<open>The process without the \<open>wcwidth\<close> package: every width is a character count.\<close>

definition env_fallback :: width_env where
  "env_fallback = \<lparr>HAS_WCWIDTH = False, wcwidth = (\<lambda>_. 1)\<rparr>"

text \<open>
  Modelled from the spec: a width table in the shape the spec gives for the external
  package (control characters fail, combining marks take no column, CJK ideographs take
  two, every other character one), cut down to a few ranges.
\<close>

definition sample_wcwidth :: "nat \<Rightarrow> int" where
  "sample_wcwidth c =
     (if c = 0 then 0
      else if c < 32 \<or> (127 \<le> c \<and> c < 160) then - 1
      else if 768 \<le> c \<and> c \<le> 879 then 0
      else if 19968 \<le> c \<and> c \<le> 40959 then 2
      else 1)"

definition env_wcwidth :: width_env where
  "env_wcwidth = \<lparr>HAS_WCWIDTH = True, wcwidth = sample_wcwidth\<rparr>"

section \<open>Well-formed inputs\<close>

definition wellformed :: "TUIBox \<Rightarrow> bool" where
  "wellformed box \<longleftrightarrow>
     0 \<le> content_width box \<and> 0 \<le> padding_left box \<and> 0 \<le> padding_right box
     \<and> 0 \<le> padding_top box \<and> 0 \<le> padding_bottom box \<and> 0 \<le> border_width box
     \<and> 0 \<le> margin_left box \<and> 0 \<le> margin_right box
     \<and> 0 \<le> margin_top box \<and> 0 \<le> margin_bottom box"

section \<open>Vocabulary of the statements\<close>

text \<open>The characters \<open>render\<close> itself writes: the space and the six box glyphs.\<close>

definition frame_chars :: "nat set" where
  "frame_chars = {SPACE, TOP_LEFT, TOP_RIGHT, BOTTOM_LEFT, BOTTOM_RIGHT, HORIZONTAL, VERTICAL}"

text \<open>
  With the \<open>wcwidth\<close> package present, the table gives one column to the space and to
  each box glyph, as the package does.
\<close>

definition narrow_glyphs :: "width_env \<Rightarrow> bool" where
  "narrow_glyphs env \<longleftrightarrow> (HAS_WCWIDTH env \<longrightarrow> (\<forall>c\<in>frame_chars. wcwidth env c = 1))"

text \<open>The characters that can continue a partial match of the escape pattern.\<close>

definition sgr_continues :: "nat \<Rightarrow> bool" where
  "sgr_continues c \<longleftrightarrow> c = LBRACKET \<or> c = LOWER_M \<or> is_sgr_param c"

text \<open>The columns the two vertical border glyphs take in a row: the border is one glyph
  wide whenever \<open>border_width\<close> is positive.\<close>

definition border_cols :: "TUIBox \<Rightarrow> nat" where
  "border_cols box = (if border_width box > 0 then 2 else 0)"

section \<open>Sample inputs\<close>

definition sample_box :: TUIBox where
  "sample_box = \<lparr>content_width = 6, padding_left = 1, padding_right = 2, padding_top = 1,
                  padding_bottom = 0, border_width = 1, margin_left = 2, margin_right = 0,
                  margin_top = 1, margin_bottom = 1\<rparr>"

text \<open>The string \<open>"\x1b[31mHi\x1b[0m"\<close> and the two ideographs of \<open>"ni hao"\<close>.\<close>

definition red_hi :: ustring where
  "red_hi = ESC # ustr ''[31mHi'' @ ESC # ustr ''[0m''"

definition ni_hao :: ustring where
  "ni_hao = [20320, 22909]"

section \<open>Styled text\<close>

text \<open>
  A text with colour codes, as a terminal application writes it: plain segments free of \<open>ESC\<close>,
  interleaved with sequences \<open>ESC [ params m\<close> whose parameters are digits and semicolons.
\<close>

datatype piece = Text ustring | Sgr ustring

definition sgr_sequence :: "ustring \<Rightarrow> ustring" where
  "sgr_sequence params = [ESC, LBRACKET] @ params @ [LOWER_M]"

fun styled :: "piece list \<Rightarrow> ustring" where
  "styled [] = []"
| "styled (Text t # ps) = t @ styled ps"
| "styled (Sgr q # ps) = sgr_sequence q @ styled ps"

fun unstyled :: "piece list \<Rightarrow> ustring" where
  "unstyled [] = []"
| "unstyled (Text t # ps) = t @ unstyled ps"
| "unstyled (Sgr q # ps) = unstyled ps"

fun piece_ok :: "piece \<Rightarrow> bool" where
  "piece_ok (Text t) = (ESC \<notin> set t)"
| "piece_ok (Sgr q) = list_all is_sgr_param q"

section \<open>Rows of a rendered box\<close>

text \<open>
  The two \<open>border_line\<close> strings of \<open>render\<close>, the rows between the margin rows, and
  the width the rows of a bordered box, or of a box with no right margin, are built to.
\<close>

definition top_border :: "TUIBox \<Rightarrow> ustring" where
  "top_border box = str_mul SPACE (margin_left box) @ [TOP_LEFT]
                    @ str_mul HORIZONTAL (get_interior_width box) @ [TOP_RIGHT]"

definition bottom_border :: "TUIBox \<Rightarrow> ustring" where
  "bottom_border box = str_mul SPACE (margin_left box) @ [BOTTOM_LEFT]
                       @ str_mul HORIZONTAL (get_interior_width box) @ [BOTTOM_RIGHT]"

definition render_body :: "width_env \<Rightarrow> TUIBox \<Rightarrow> ustring list \<Rightarrow> ustring \<Rightarrow> ustring list" where
  "render_body env box lines al =
     (if border_width box > 0 then [top_border box] else [])
     @ replicate (nat (padding_top box)) (render_empty_line box)
     @ map (\<lambda>line. render_content_line env box line al) lines
     @ replicate (nat (padding_bottom box)) (render_empty_line box)
     @ (if border_width box > 0 then [bottom_border box] else [])"

definition row_width :: "TUIBox \<Rightarrow> int" where
  "row_width box = margin_left box + int (border_cols box) + get_interior_width box"

text \<open>Configurations with a top margin and with a border width of two.\<close>

definition margin_box :: TUIBox where
  "margin_box = \<lparr>content_width = 2, padding_left = 0, padding_right = 0, padding_top = 0,
                  padding_bottom = 0, border_width = 1, margin_left = 0, margin_right = 0,
                  margin_top = 1, margin_bottom = 0\<rparr>"

definition thick_box :: TUIBox where
  "thick_box = \<lparr>content_width = 2, padding_left = 0, padding_right = 0, padding_top = 0,
                 padding_bottom = 0, border_width = 2, margin_left = 0, margin_right = 0,
                 margin_top = 0, margin_bottom = 0\<rparr>"

text \<open>The sample box without its top and bottom margins.\<close>

definition flush_box :: TUIBox where
  "flush_box = sample_box\<lparr>margin_top := 0, margin_bottom := 0\<rparr>"

section \<open>Frame dimensions\<close>

text \<open>
  C3. The total width is the content width plus twice the border width plus the two
  horizontal paddings plus the two horizontal margins. It holds for every configuration.
\<close>

theorem total_width_formula:
  "get_total_width box =
     content_width box + 2 * border_width box + padding_left box + padding_right box
     + margin_left box + margin_right box"
  by (simp add: get_total_width_def calculate_dimensions_def)

section \<open>Auxiliary facts\<close>

lemma wcswidth_loop_eq:
  "wcswidth_loop wcw w cs =
     (if \<exists>c\<in>set cs. wcw c < 0 then - 1 else w + sum_list (map wcw cs))"
  by (induction cs arbitrary: w) auto

lemma wcswidth_eq:
  "wcswidth env cs =
     (if \<exists>c\<in>set cs. wcwidth env c < 0 then - 1 else sum_list (map (wcwidth env) cs))"
  by (simp add: wcswidth_def wcswidth_loop_eq)

lemma sum_list_nonneg_wcw: "\<forall>c\<in>set cs. \<not> f c < (0::int) \<Longrightarrow> 0 \<le> sum_list (map f cs)"
  by (induction cs) auto

lemma sum_list_narrow: "\<forall>c\<in>set cs. f c = (1::int) \<Longrightarrow> sum_list (map f cs) = int (length cs)"
  by (induction cs) auto

lemma get_visual_width_strip: "get_visual_width env t = get_width env (strip_ansi t)"
  by (simp add: get_visual_width_def get_width_def Let_def)

lemma get_width_framed:
  assumes "narrow_glyphs env" "set pre \<subseteq> frame_chars" "set post \<subseteq> frame_chars"
  shows "get_width env (pre @ mid @ post) = int (length pre) + get_width env mid + int (length post)"
proof (cases "HAS_WCWIDTH env")
  case False
  then show ?thesis by (simp add: get_width_def)
next
  case True
  with assms have n: "\<forall>c\<in>set pre. wcwidth env c = 1" "\<forall>c\<in>set post. wcwidth env c = 1"
    by (auto simp: narrow_glyphs_def)
  show ?thesis
  proof (cases "\<exists>c\<in>set mid. wcwidth env c < 0")
    case True
    then show ?thesis using \<open>HAS_WCWIDTH env\<close> by (auto simp: get_width_def wcswidth_eq)
  next
    case False
    then have "0 \<le> sum_list (map (wcwidth env) mid)" by (intro sum_list_nonneg_wcw) auto
    moreover have "\<not> (\<exists>c\<in>set (pre @ mid @ post). wcwidth env c < 0)"
      using False n by auto
    ultimately show ?thesis using False n \<open>HAS_WCWIDTH env\<close>
      by (simp add: get_width_def wcswidth_eq sum_list_narrow)
  qed
qed

lemma match_sgr_tail_append:
  assumes "ys = [] \<or> \<not> sgr_continues (hd ys)"
  shows "match_sgr_tail (cs @ ys) = map_option (\<lambda>r. r @ ys) (match_sgr_tail cs)"
proof (induction cs)
  case Nil
  from assms show ?case by (cases ys) (auto simp: sgr_continues_def)
next
  case (Cons c cs)
  then show ?case by simp
qed

lemma match_sgr_append:
  assumes "ys = [] \<or> \<not> sgr_continues (hd ys)"
  shows "match_sgr ((c # cs) @ ys) = map_option (\<lambda>r. r @ ys) (match_sgr (c # cs))"
proof (cases cs)
  case Nil
  then show ?thesis using assms by (cases ys) (auto simp: sgr_continues_def)
next
  case (Cons b cs')
  then show ?thesis using match_sgr_tail_append[OF assms] by simp
qed

lemma strip_ansi_plain: "ESC \<notin> set xs \<Longrightarrow> strip_ansi xs = xs"
proof (induction xs)
  case Nil
  then show ?case by simp
next
  case (Cons c cs)
  then have "match_sgr (c # cs) = None" by (cases cs) auto
  with Cons show ?case by simp
qed

lemma strip_ansi_append:
  assumes "ys = [] \<or> \<not> sgr_continues (hd ys)"
  shows "strip_ansi (xs @ ys) = strip_ansi xs @ strip_ansi ys"
proof (induction xs rule: strip_ansi.induct)
  case 1
  then show ?case by simp
next
  case (2 c cs)
  show ?case
  proof (cases "match_sgr (c # cs)")
    case None
    then have "match_sgr ((c # cs) @ ys) = None" using match_sgr_append[OF assms, of c cs] by simp
    then show ?thesis using None 2 by simp
  next
    case (Some r)
    then have "match_sgr ((c # cs) @ ys) = Some (r @ ys)" using match_sgr_append[OF assms, of c cs] by simp
    then show ?thesis using Some 2 by simp
  qed
qed


lemma strip_ansi_prefix: "ESC \<notin> set pre \<Longrightarrow> strip_ansi (pre @ xs) = pre @ strip_ansi xs"
proof (induction pre)
  case Nil
  then show ?case by simp
next
  case (Cons c cs)
  then have "match_sgr (c # cs @ xs) = None" by (cases "cs @ xs") auto
  with Cons show ?case by simp
qed

lemma frame_chars_no_esc: "set xs \<subseteq> frame_chars \<Longrightarrow> ESC \<notin> set xs"
  by (auto simp: frame_chars_def)

lemma frame_chars_stop: "set ys \<subseteq> frame_chars \<Longrightarrow> ys = [] \<or> \<not> sgr_continues (hd ys)"
  by (cases ys) (auto simp: frame_chars_def sgr_continues_def is_sgr_param_def)

lemma strip_ansi_framed:
  assumes "set pre \<subseteq> frame_chars" "set post \<subseteq> frame_chars"
  shows "strip_ansi (pre @ mid @ post) = pre @ strip_ansi mid @ post"
proof -
  have "strip_ansi (pre @ mid @ post) = pre @ strip_ansi (mid @ post)"
    using assms(1) by (simp add: strip_ansi_prefix frame_chars_no_esc)
  also have "strip_ansi (mid @ post) = strip_ansi mid @ strip_ansi post"
    using assms(2) by (intro strip_ansi_append frame_chars_stop)
  also have "strip_ansi post = post"
    using assms(2) by (simp add: strip_ansi_plain frame_chars_no_esc)
  finally show ?thesis .
qed

lemma visual_width_framed:
  assumes "narrow_glyphs env" "set pre \<subseteq> frame_chars" "set post \<subseteq> frame_chars"
  shows "get_visual_width env (pre @ mid @ post)
         = int (length pre) + get_visual_width env mid + int (length post)"
  using assms by (simp add: get_visual_width_strip strip_ansi_framed get_width_framed)

lemma get_width_frame_only:
  assumes "narrow_glyphs env" "set pre \<subseteq> frame_chars"
  shows "get_width env pre = int (length pre)"
  using get_width_framed[OF assms(1) assms(2), of "[]" "[]"]
  by (simp add: get_width_def wcswidth_def)

lemma visual_width_frame_only:
  assumes "narrow_glyphs env" "set pre \<subseteq> frame_chars"
  shows "get_visual_width env pre = int (length pre)"
  using assms by (simp add: get_visual_width_strip strip_ansi_plain frame_chars_no_esc get_width_frame_only)

lemma set_str_mul: "c \<in> frame_chars \<Longrightarrow> set (str_mul c n) \<subseteq> frame_chars"
  by (auto simp: str_mul_def)

lemma length_str_mul: "length (str_mul c n) = nat n"
  by (simp add: str_mul_def)

lemma frame_chars_mem:
  "SPACE \<in> frame_chars" "VERTICAL \<in> frame_chars" "HORIZONTAL \<in> frame_chars"
  "TOP_LEFT \<in> frame_chars" "TOP_RIGHT \<in> frame_chars"
  "BOTTOM_LEFT \<in> frame_chars" "BOTTOM_RIGHT \<in> frame_chars"
  by (simp_all add: frame_chars_def)

lemma content_line_shape:
  "\<exists>pre post.
     render_content_line env box content al = pre @ content @ post
     \<and> set pre \<subseteq> {SPACE, VERTICAL} \<and> set post \<subseteq> {SPACE, VERTICAL}
     \<and> length pre + length post
       = nat (margin_left box) + border_cols box + nat (padding_left box) + nat (padding_right box)
         + nat (content_width box - get_visual_width env content)"
proof -
  define slack where "slack = content_width box - get_visual_width env content"
  define edge where "edge = (if border_width box > 0 then [VERTICAL] else [])"
  define lp where "lp = (if al = ustr ''center'' then str_mul SPACE (slack div 2)
                         else if al = ustr ''right'' then str_mul SPACE slack else [])"
  define rp where "rp = (if al = ustr ''center'' then str_mul SPACE (slack - slack div 2)
                         else if al = ustr ''right'' then [] else str_mul SPACE slack)"
  define pre where "pre = str_mul SPACE (margin_left box) @ edge @ str_mul SPACE (padding_left box) @ lp"
  define post where "post = rp @ str_mul SPACE (padding_right box) @ edge"
  have row: "render_content_line env box content al = pre @ content @ post"
    by (simp add: render_content_line_def Let_def pre_def post_def lp_def rp_def edge_def slack_def)
  have sets: "set pre \<subseteq> {SPACE, VERTICAL}" "set post \<subseteq> {SPACE, VERTICAL}"
    by (auto simp: pre_def post_def lp_def rp_def edge_def str_mul_def)
  have "length lp + length rp = nat slack"
    by (auto simp: lp_def rp_def length_str_mul)
  then have len: "length pre + length post
       = nat (margin_left box) + border_cols box + nat (padding_left box) + nat (padding_right box)
         + nat slack"
    by (simp add: pre_def post_def edge_def length_str_mul border_cols_def)
  from row sets len show ?thesis unfolding slack_def by blast
qed

lemma render_length:
  "length (render env box lines al) =
     nat (margin_top box) + nat (padding_top box) + length lines + nat (padding_bottom box)
     + nat (margin_bottom box) + border_cols box"
  by (simp add: render_def border_cols_def Let_def)

section \<open>Row count\<close>

text \<open>
  C10. For a configuration with non-negative fields, \<open>render\<close> returns
  \<open>margin_top + padding_top + len(lines) + padding_bottom + margin_bottom\<close> rows, plus two
  when \<open>border_width\<close> is positive and none otherwise: a border width above one still gives
  one top and one bottom border row.
\<close>

theorem render_row_count:
  assumes "wellformed box"
  shows "int (length (render env box lines al)) =
           margin_top box + padding_top box + int (length lines) + padding_bottom box
           + margin_bottom box + (if border_width box > 0 then 2 else 0)"
  using assms by (simp add: render_length wellformed_def border_cols_def)

theorem render_row_count_witness:
  "wellformed (sample_box\<lparr>border_width := 3\<rparr>)
   \<and> int (length (render env_wcwidth (sample_box\<lparr>border_width := 3\<rparr>) [red_hi, ni_hao] (ustr ''left'')))
     = 1 + 1 + 2 + 0 + 1 + 2"
proof -
  have wf: "wellformed (sample_box\<lparr>border_width := 3\<rparr>)"
    by (simp add: wellformed_def sample_box_def)
  from render_row_count[OF wf, of env_wcwidth "[red_hi, ni_hao]" "ustr ''left''"] wf
  show ?thesis by (simp add: sample_box_def)
qed

section \<open>Center alignment\<close>

lemma replicate_numeral_unfold: "replicate (numeral k) x = x # replicate (pred_numeral k) x"
  by (simp add: numeral_eq_Suc)

lemma center_split_arith:
  assumes "0 \<le> (slack::int)"
  shows "0 \<le> slack div 2" "0 \<le> slack - slack div 2"
    "odd slack \<longrightarrow> slack - slack div 2 = slack div 2 + 1"
  using assms by presburger+

text \<open>
  C5. When the slack \<open>content_width - visual_width(content)\<close> is not negative, center
  alignment puts \<open>slack div 2\<close> spaces before the content and the remaining
  \<open>slack - slack div 2\<close> spaces after it; for an odd slack the right padding is the left
  padding plus one.
\<close>

theorem center_alignment_split:
  assumes "0 \<le> content_width box - get_visual_width env content"
  shows "let slack = content_width box - get_visual_width env content;
             left_pad = slack div 2;
             right_pad = slack - left_pad;
             edge = (if border_width box > 0 then [VERTICAL] else [])
         in render_content_line env box content (ustr ''center'')
              = str_mul SPACE (margin_left box) @ edge @ str_mul SPACE (padding_left box)
                @ replicate (nat left_pad) SPACE @ content @ replicate (nat right_pad) SPACE
                @ str_mul SPACE (padding_right box) @ edge
            \<and> 0 \<le> left_pad \<and> 0 \<le> right_pad
            \<and> (odd slack \<longrightarrow> right_pad = left_pad + 1)"
proof -
  define slack where "slack = content_width box - get_visual_width env content"
  have "0 \<le> slack" using assms by (simp add: slack_def)
  note a = center_split_arith[OF this]
  have row: "render_content_line env box content (ustr ''center'')
      = str_mul SPACE (margin_left box) @ (if border_width box > 0 then [VERTICAL] else [])
        @ str_mul SPACE (padding_left box)
        @ replicate (nat (slack div 2)) SPACE @ content @ replicate (nat (slack - slack div 2)) SPACE
        @ str_mul SPACE (padding_right box) @ (if border_width box > 0 then [VERTICAL] else [])"
    by (simp add: render_content_line_def Let_def slack_def str_mul_def)
  from row a show ?thesis unfolding Let_def slack_def by blast
qed

theorem center_alignment_split_witness:
  "0 \<le> content_width sample_box - get_visual_width env_wcwidth (ustr ''abc'')
   \<and> render_content_line env_wcwidth sample_box (ustr ''abc'') (ustr ''center'')
       = ustr ''  '' @ [VERTICAL] @ ustr '' '' @ ustr '' '' @ ustr ''abc'' @ ustr ''  ''
         @ ustr ''  '' @ [VERTICAL]
   \<and> odd (content_width sample_box - get_visual_width env_wcwidth (ustr ''abc''))"
proof -
  have vw: "get_visual_width env_wcwidth (ustr ''abc'') = 3"
    by (simp add: get_visual_width_def wcswidth_def env_wcwidth_def sample_wcwidth_def ustr_def)
  have h: "0 \<le> content_width sample_box - get_visual_width env_wcwidth (ustr ''abc'')"
    by (simp add: vw sample_box_def)
  have vw': "get_visual_width env_wcwidth [97, 98, 99] = 3"
    using vw by (simp add: ustr_def)
  from center_alignment_split[OF h] h show ?thesis
    by (simp add: Let_def vw' sample_box_def str_mul_def ustr_def replicate_numeral_unfold)
qed

section \<open>Escape sequences take no width\<close>

lemma match_sgr_tail_params:
  "list_all is_sgr_param q \<Longrightarrow> match_sgr_tail (q @ LOWER_M # rest) = Some rest"
  by (induction q) (auto simp: is_sgr_param_def)

lemma strip_ansi_sgr_sequence:
  assumes "list_all is_sgr_param q"
  shows "strip_ansi (sgr_sequence q @ rest) = strip_ansi rest"
  using match_sgr_tail_params[OF assms, of rest] by (simp add: sgr_sequence_def)

lemma strip_ansi_styled:
  "\<forall>p\<in>set ps. piece_ok p \<Longrightarrow> strip_ansi (styled ps) = unstyled ps"
proof (induction ps rule: styled.induct)
  case 1
  then show ?case by simp
next
  case (2 t ps)
  then show ?case by (simp add: strip_ansi_prefix)
next
  case (3 q ps)
  then show ?case by (simp add: strip_ansi_sgr_sequence)
qed

lemma unstyled_no_esc: "\<forall>p\<in>set ps. piece_ok p \<Longrightarrow> ESC \<notin> set (unstyled ps)"
  by (induction ps rule: unstyled.induct) auto

lemma red_hi_styled: "red_hi = styled [Sgr (ustr ''31''), Text (ustr ''Hi''), Sgr (ustr ''0'')]"
  by (simp add: red_hi_def sgr_sequence_def ustr_def)

lemma visual_width_styled:
  assumes "\<forall>p\<in>set ps. piece_ok p"
  shows "get_visual_width env (styled ps) = get_visual_width env (unstyled ps)"
  using assms
  by (simp add: get_visual_width_strip strip_ansi_styled strip_ansi_plain unstyled_no_esc)

lemma visual_width_hi:
  assumes "HAS_WCWIDTH env \<longrightarrow> wcwidth env 72 = 1 \<and> wcwidth env 105 = 1"
  shows "get_visual_width env (ustr ''Hi'') = 2"
  using assms by (auto simp: get_visual_width_def wcswidth_def ustr_def Let_def)

text \<open>
  C6. The measurer is invariant under SGR escape sequences: a text made of plain segments
  and sequences \<open>ESC [ digits/semicolons m\<close> has the visual width of its plain segments
  alone. In particular \<open>"\x1b[31mHi\x1b[0m"\<close> has the width of \<open>"Hi"\<close>, which is 2
  (with the \<open>wcwidth\<close> package, provided its table gives one column to \<open>H\<close> and \<open>i\<close>).
\<close>

theorem visual_width_sgr_invariant:
  "((\<forall>p\<in>set ps. piece_ok p) \<longrightarrow>
      get_visual_width env (styled ps) = get_visual_width env (unstyled ps))
   \<and> ((HAS_WCWIDTH env \<longrightarrow> wcwidth env 72 = 1 \<and> wcwidth env 105 = 1) \<longrightarrow>
      get_visual_width env red_hi = get_visual_width env (ustr ''Hi'')
      \<and> get_visual_width env (ustr ''Hi'') = 2)"
proof -
  have "get_visual_width env red_hi = get_visual_width env (ustr ''Hi'')"
    unfolding red_hi_styled
    by (subst visual_width_styled) (simp_all add: ustr_def is_sgr_param_def)
  then show ?thesis using visual_width_styled visual_width_hi by blast
qed

theorem visual_width_sgr_invariant_witness:
  "piece_ok (Sgr (ustr ''1;31'')) \<and> piece_ok (Text ni_hao)
   \<and> piece_ok (Sgr (ustr ''0'')) \<and> piece_ok (Text (ustr ''!''))
   \<and> get_visual_width env_wcwidth
        (styled [Sgr (ustr ''1;31''), Text ni_hao, Sgr (ustr ''0''), Text (ustr ''!'')])
      = get_visual_width env_wcwidth (ni_hao @ ustr ''!'')
   \<and> (HAS_WCWIDTH env_wcwidth \<and> wcwidth env_wcwidth 72 = 1 \<and> wcwidth env_wcwidth 105 = 1)
   \<and> get_visual_width env_wcwidth red_hi = 2"
proof -
  have ok: "\<forall>p\<in>set [Sgr (ustr ''1;31''), Text ni_hao, Sgr (ustr ''0''), Text (ustr ''!'')]. piece_ok p"
    by (simp add: ustr_def ni_hao_def is_sgr_param_def)
  have tab: "HAS_WCWIDTH env_wcwidth \<and> wcwidth env_wcwidth 72 = 1 \<and> wcwidth env_wcwidth 105 = 1"
    by (simp add: env_wcwidth_def sample_wcwidth_def)
  from visual_width_sgr_invariant[of "[Sgr (ustr ''1;31''), Text ni_hao, Sgr (ustr ''0''), Text (ustr ''!'')]" env_wcwidth]
    ok tab
  show ?thesis by simp
qed

section \<open>The measurer is total\<close>

lemma wcswidth_negative:
  "wcswidth env cs < 0 \<longleftrightarrow> (\<exists>c\<in>set cs. wcwidth env c < 0)"
proof (cases "\<exists>c\<in>set cs. wcwidth env c < 0")
  case True
  then show ?thesis by (simp add: wcswidth_eq)
next
  case False
  then have "0 \<le> sum_list (map (wcwidth env) cs)" by (intro sum_list_nonneg_wcw) auto
  with False show ?thesis by (simp add: wcswidth_eq)
qed

text \<open>
  C9. \<open>get_visual_width\<close> returns a non-negative integer for every string (it is a total
  function: the scan of \<open>strip_ansi\<close> terminates and no branch raises). When the package
  is present and the stripped text holds a character the table marks as a control
  character, \<open>wcswidth\<close> answers \<open>-1\<close> and the result is the character count of the
  stripped text.
\<close>

theorem visual_width_total:
  "0 \<le> get_visual_width env text
   \<and> (HAS_WCWIDTH env \<and> (\<exists>c\<in>set (strip_ansi text). wcwidth env c < 0) \<longrightarrow>
        wcswidth env (strip_ansi text) = - 1
        \<and> get_visual_width env text = int (length (strip_ansi text)))"
  using wcswidth_negative[of env "strip_ansi text"]
  by (auto simp: get_visual_width_def Let_def wcswidth_eq)

theorem visual_width_total_witness:
  "HAS_WCWIDTH env_wcwidth
   \<and> (\<exists>c\<in>set (strip_ansi (red_hi @ [9] @ ni_hao)). wcwidth env_wcwidth c < 0)
   \<and> strip_ansi (red_hi @ [9] @ ni_hao) = ustr ''Hi'' @ [9] @ ni_hao
   \<and> get_visual_width env_wcwidth (red_hi @ [9] @ ni_hao) = 5"
proof -
  have s: "strip_ansi (red_hi @ [9] @ ni_hao) = ustr ''Hi'' @ [9] @ ni_hao"
    by (simp add: red_hi_def ni_hao_def ustr_def is_sgr_param_def)
  have h: "HAS_WCWIDTH env_wcwidth
           \<and> (\<exists>c\<in>set (strip_ansi (red_hi @ [9] @ ni_hao)). wcwidth env_wcwidth c < 0)"
    unfolding s by (simp add: env_wcwidth_def sample_wcwidth_def ustr_def ni_hao_def)
  from visual_width_total[of env_wcwidth "red_hi @ [9] @ ni_hao"] h
  have "get_visual_width env_wcwidth (red_hi @ [9] @ ni_hao)
        = int (length (strip_ansi (red_hi @ [9] @ ni_hao)))"
    by blast
  with h s show ?thesis by (simp add: ustr_def ni_hao_def)
qed


section \<open>Content passes through verbatim\<close>

lemma render_nth_content:
  assumes "i < length lines"
  shows "render env box lines al
           ! (nat (margin_top box) + (if border_width box > 0 then 1 else 0)
              + nat (padding_top box) + i)
         = render_content_line env box (lines ! i) al"
  using assms by (simp add: render_def Let_def nth_append)

text \<open>
  C8. The row rendered for the \<open>i\<close>-th content line is that line, unchanged and
  contiguous, between a prefix and a suffix made of spaces and the vertical glyph only.
  The escape sequences of the line stay in the row; they only count for nothing in the
  visual width from which the number of alignment spaces is computed.
\<close>

theorem content_line_verbatim:
  assumes "i < length lines"
  shows "\<exists>pre post.
           render env box lines al
             ! (nat (margin_top box) + (if border_width box > 0 then 1 else 0)
                + nat (padding_top box) + i)
           = pre @ lines ! i @ post
           \<and> set pre \<subseteq> {SPACE, VERTICAL} \<and> set post \<subseteq> {SPACE, VERTICAL}
           \<and> length pre + length post
             = nat (margin_left box) + border_cols box + nat (padding_left box)
               + nat (padding_right box)
               + nat (content_width box - get_visual_width env (lines ! i))"
  unfolding render_nth_content[OF assms] by (rule content_line_shape)

theorem content_line_verbatim_witness:
  "(1::nat) < length [ni_hao, red_hi]
   \<and> (\<exists>pre post.
         render env_wcwidth sample_box [ni_hao, red_hi] (ustr ''right'') ! 4 = pre @ red_hi @ post
         \<and> set pre \<subseteq> {SPACE, VERTICAL} \<and> set post \<subseteq> {SPACE, VERTICAL}
         \<and> length pre + length post = 2 + 2 + 1 + 2 + 4)"
proof -
  have h: "(1::nat) < length [ni_hao, red_hi]" by simp
  have vw: "get_visual_width env_wcwidth red_hi = 2"
    by (simp add: get_visual_width_def wcswidth_def env_wcwidth_def sample_wcwidth_def
        red_hi_def ustr_def is_sgr_param_def)
  have four: "(4::nat) = Suc (Suc (Suc (Suc 0)))" by simp
  from content_line_verbatim[OF h, of env_wcwidth sample_box "ustr ''right''"] h vw
  show ?thesis by (simp add: sample_box_def border_cols_def four)
qed

section \<open>Row widths\<close>

lemma frame_subset: "set xs \<subseteq> {SPACE, VERTICAL} \<Longrightarrow> set xs \<subseteq> frame_chars"
  by (auto simp: frame_chars_def)

lemma content_line_frame:
  assumes "wellformed box"
  shows "\<exists>pre post.
           render_content_line env box content al = pre @ content @ post
           \<and> set pre \<subseteq> frame_chars \<and> set post \<subseteq> frame_chars
           \<and> int (length pre) + int (length post)
             = margin_left box + int (border_cols box) + padding_left box + padding_right box
               + int (nat (content_width box - get_visual_width env content))"
proof -
  obtain pre post where
    row: "render_content_line env box content al = pre @ content @ post"
    and sets: "set pre \<subseteq> {SPACE, VERTICAL}" "set post \<subseteq> {SPACE, VERTICAL}"
    and len: "length pre + length post
       = nat (margin_left box) + border_cols box + nat (padding_left box) + nat (padding_right box)
         + nat (content_width box - get_visual_width env content)"
    using content_line_shape by blast
  have "int (length pre) + int (length post) = int (length pre + length post)" by simp
  also have "\<dots> = int (nat (margin_left box) + border_cols box + nat (padding_left box)
       + nat (padding_right box) + nat (content_width box - get_visual_width env content))"
    by (simp only: len)
  also have "\<dots> = margin_left box + int (border_cols box) + padding_left box + padding_right box
       + int (nat (content_width box - get_visual_width env content))"
    using assms by (simp add: wellformed_def)
  finally have len': "int (length pre) + int (length post)
       = margin_left box + int (border_cols box) + padding_left box + padding_right box
         + int (nat (content_width box - get_visual_width env content))" .
  show ?thesis
  proof (intro exI conjI)
    show "render_content_line env box content al = pre @ content @ post" by (rule row)
    show "set pre \<subseteq> frame_chars" using sets(1) by (rule frame_subset)
    show "set post \<subseteq> frame_chars" using sets(2) by (rule frame_subset)
    show "int (length pre) + int (length post)
       = margin_left box + int (border_cols box) + padding_left box + padding_right box
         + int (nat (content_width box - get_visual_width env content))" by (rule len')
  qed
qed

lemma content_row_get_width:
  assumes "wellformed box" "narrow_glyphs env"
  shows "get_width env (render_content_line env box content al)
         = margin_left box + int (border_cols box) + padding_left box + padding_right box
           + int (nat (content_width box - get_visual_width env content))
           + get_width env content"
proof -
  obtain pre post where
    row: "render_content_line env box content al = pre @ content @ post"
    and sets: "set pre \<subseteq> frame_chars" "set post \<subseteq> frame_chars"
    and len: "int (length pre) + int (length post)
       = margin_left box + int (border_cols box) + padding_left box + padding_right box
         + int (nat (content_width box - get_visual_width env content))"
    using content_line_frame[OF assms(1)] by blast
  have "get_width env (pre @ content @ post)
        = int (length pre) + get_width env content + int (length post)"
    using assms(2) sets by (rule get_width_framed)
  with len show ?thesis unfolding row by simp
qed

lemma content_row_visual_width:
  assumes "wellformed box" "narrow_glyphs env"
  shows "get_visual_width env (render_content_line env box content al)
         = margin_left box + int (border_cols box) + padding_left box + padding_right box
           + max (content_width box) (get_visual_width env content)"
proof -
  obtain pre post where
    row: "render_content_line env box content al = pre @ content @ post"
    and sets: "set pre \<subseteq> frame_chars" "set post \<subseteq> frame_chars"
    and len: "int (length pre) + int (length post)
       = margin_left box + int (border_cols box) + padding_left box + padding_right box
         + int (nat (content_width box - get_visual_width env content))"
    using content_line_frame[OF assms(1)] by blast
  have "get_visual_width env (pre @ content @ post)
        = int (length pre) + get_visual_width env content + int (length post)"
    using assms(2) sets by (rule visual_width_framed)
  with len show ?thesis unfolding row by (auto simp: max_def split: if_splits)
qed

lemma empty_row_frame: "set (render_empty_line box) \<subseteq> frame_chars"
  by (auto simp: render_empty_line_def Let_def str_mul_def frame_chars_def)

lemma empty_row_length:
  assumes "wellformed box"
  shows "int (length (render_empty_line box))
         = (if border_width box > 0 then row_width box else row_width box + margin_right box)"
  using assms
  by (simp add: render_empty_line_def Let_def length_str_mul row_width_def border_cols_def
      get_interior_width_def wellformed_def)

lemma border_frame: "set (top_border box) \<subseteq> frame_chars" "set (bottom_border box) \<subseteq> frame_chars"
  by (auto simp: top_border_def bottom_border_def str_mul_def frame_chars_def)

lemma border_length:
  assumes "wellformed box" "border_width box > 0"
  shows "int (length (top_border box)) = row_width box"
    "int (length (bottom_border box)) = row_width box"
  using assms
  by (simp_all add: top_border_def bottom_border_def length_str_mul row_width_def border_cols_def
      get_interior_width_def wellformed_def)

lemma render_split:
  "render env box lines al
   = replicate (nat (margin_top box)) [] @ render_body env box lines al
     @ replicate (nat (margin_bottom box)) []"
  by (simp add: render_def render_body_def Let_def top_border_def bottom_border_def)

lemma body_cases:
  assumes "row \<in> set (render_body env box lines al)"
  shows "(border_width box > 0 \<and> (row = top_border box \<or> row = bottom_border box))
         \<or> row = render_empty_line box
         \<or> (\<exists>l\<in>set lines. row = render_content_line env box l al)"
  using assms by (auto simp: render_body_def split: if_splits)

lemma total_width_row_width:
  assumes "wellformed box" "border_width box \<le> 1" "margin_right box = 0"
  shows "get_total_width box = row_width box"
  using assms
  by (auto simp: get_total_width_def calculate_dimensions_def row_width_def border_cols_def
      get_interior_width_def wellformed_def)

lemma body_row_visual_width:
  assumes "wellformed box" "narrow_glyphs env"
    and "border_width box > 0 \<or> margin_right box = 0"
    and "\<forall>l\<in>set lines. get_visual_width env l \<le> content_width box"
    and "row \<in> set (render_body env box lines al)"
  shows "get_visual_width env row = row_width box"
proof -
  from body_cases[OF assms(5)] consider
    (border) "border_width box > 0" "row = top_border box \<or> row = bottom_border box"
    | (empty) "row = render_empty_line box"
    | (content) l where "l \<in> set lines" "row = render_content_line env box l al"
    by blast
  then show ?thesis
  proof cases
    case border
    then show ?thesis
      using assms(1,2) border_length[OF assms(1) border(1)]
      by (auto simp: visual_width_frame_only border_frame)
  next
    case empty
    then show ?thesis
      using assms(1,2,3) empty_row_length[OF assms(1)]
      by (auto simp: visual_width_frame_only empty_row_frame split: if_splits)
  next
    case content
    with assms(4) have "get_visual_width env l \<le> content_width box" by blast
    then show ?thesis
      unfolding content(2) content_row_visual_width[OF assms(1,2)]
      by (simp add: row_width_def get_interior_width_def max_def)
  qed
qed

text \<open>
  C1, as amended. For a configuration with non-negative fields, a border width of at most
  one and no right margin, and content lines no wider than \<open>content_width\<close>, the rows of
  \<open>render\<close> are \<open>margin_top\<close> empty strings, then the border, padding and content rows,
  each of visual width exactly \<open>total_width\<close>, then \<open>margin_bottom\<close> empty strings. The
  margin rows are empty strings, of visual width zero.
\<close>

theorem render_rows_total_width:
  assumes "wellformed box" "narrow_glyphs env"
    and "border_width box \<le> 1" "margin_right box = 0"
    and "\<forall>l\<in>set lines. get_visual_width env l \<le> content_width box"
  shows "\<exists>body.
           render env box lines al
             = replicate (nat (margin_top box)) [] @ body @ replicate (nat (margin_bottom box)) []
           \<and> length body = border_cols box + nat (padding_top box) + length lines
                            + nat (padding_bottom box)
           \<and> (\<forall>row\<in>set body. get_visual_width env row = get_total_width box)"
proof (intro exI conjI ballI)
  show "render env box lines al
        = replicate (nat (margin_top box)) [] @ render_body env box lines al
          @ replicate (nat (margin_bottom box)) []"
    by (rule render_split)
  show "length (render_body env box lines al)
        = border_cols box + nat (padding_top box) + length lines + nat (padding_bottom box)"
    by (simp add: render_body_def border_cols_def)
  fix row assume "row \<in> set (render_body env box lines al)"
  then have "get_visual_width env row = row_width box"
    using assms by (intro body_row_visual_width[where lines = lines and al = al]) auto
  then show "get_visual_width env row = get_total_width box"
    using assms by (simp add: total_width_row_width)
qed

lemma narrow_glyphs_sample: "narrow_glyphs env_wcwidth"
  by (simp add: narrow_glyphs_def frame_chars_def env_wcwidth_def sample_wcwidth_def)

lemma visual_width_red_hi: "get_visual_width env_wcwidth red_hi = 2"
  by (simp add: get_visual_width_def wcswidth_def env_wcwidth_def sample_wcwidth_def
      red_hi_def ustr_def is_sgr_param_def)

lemma visual_width_ni_hao: "get_visual_width env_wcwidth ni_hao = 4"
  by (simp add: get_visual_width_def wcswidth_def env_wcwidth_def sample_wcwidth_def ni_hao_def)

theorem render_rows_total_width_witness:
  "wellformed sample_box \<and> narrow_glyphs env_wcwidth
   \<and> border_width sample_box \<le> 1 \<and> margin_right sample_box = 0
   \<and> get_visual_width env_wcwidth red_hi \<le> content_width sample_box
   \<and> get_visual_width env_wcwidth ni_hao \<le> content_width sample_box
   \<and> (\<exists>body.
         render env_wcwidth sample_box [red_hi, ni_hao] (ustr ''center'') = [[]] @ body @ [[]]
         \<and> length body = 5
         \<and> (\<forall>row\<in>set body. get_visual_width env_wcwidth row = 13))"
proof -
  have h: "wellformed sample_box" "border_width sample_box \<le> 1" "margin_right sample_box = 0"
    by (simp_all add: wellformed_def sample_box_def)
  have w: "get_visual_width env_wcwidth red_hi \<le> content_width sample_box"
    "get_visual_width env_wcwidth ni_hao \<le> content_width sample_box"
    by (simp_all add: visual_width_red_hi visual_width_ni_hao sample_box_def)
  then have ls: "\<forall>l\<in>set [red_hi, ni_hao]. get_visual_width env_wcwidth l \<le> content_width sample_box"
    by simp
  have t: "get_total_width sample_box = 13"
    by (simp add: get_total_width_def calculate_dimensions_def sample_box_def)
  have m: "replicate (nat (margin_top sample_box)) ([]::ustring) = [[]]"
    "replicate (nat (margin_bottom sample_box)) ([]::ustring) = [[]]"
    "border_cols sample_box + nat (padding_top sample_box) + length [red_hi, ni_hao]
       + nat (padding_bottom sample_box) = 5"
    by (simp_all add: sample_box_def border_cols_def)
  from render_rows_total_width[OF h(1) narrow_glyphs_sample h(2,3) ls, of "ustr ''center''"]
  show ?thesis unfolding t m using h w narrow_glyphs_sample by simp
qed

text \<open>
  The width law does not reach the margin rows: the first row of the box below is the
  empty string, of width 0, where the total width is 4.
\<close>

lemma render_margin_box:
  "render env_wcwidth margin_box [ustr ''Hi''] (ustr ''left'')
   = [[], [TOP_LEFT, HORIZONTAL, HORIZONTAL, TOP_RIGHT], [VERTICAL, 72, 105, VERTICAL],
      [BOTTOM_LEFT, HORIZONTAL, HORIZONTAL, BOTTOM_RIGHT]]"
  by (simp add: render_def render_content_line_def margin_box_def Let_def get_interior_width_def
      str_mul_def get_visual_width_def wcswidth_def env_wcwidth_def sample_wcwidth_def ustr_def
      replicate_numeral_unfold)

theorem render_margin_row_counterexample:
  "wellformed margin_box
   \<and> get_visual_width env_wcwidth (ustr ''Hi'') \<le> content_width margin_box
   \<and> render env_wcwidth margin_box [ustr ''Hi''] (ustr ''left'') ! 0 = []
   \<and> map (get_visual_width env_wcwidth) (render env_wcwidth margin_box [ustr ''Hi''] (ustr ''left''))
     = [0, 4, 4, 4]
   \<and> get_total_width margin_box = 4"
  unfolding render_margin_box
  by (simp add: wellformed_def margin_box_def get_visual_width_def wcswidth_def env_wcwidth_def
      sample_wcwidth_def ustr_def get_total_width_def calculate_dimensions_def)

section \<open>Overflowing content\<close>

lemma overflow_row:
  assumes "content_width box < get_visual_width env content"
  shows "render_content_line env box content al
         = str_mul SPACE (margin_left box) @ (if border_width box > 0 then [VERTICAL] else [])
           @ str_mul SPACE (padding_left box) @ content @ str_mul SPACE (padding_right box)
           @ (if border_width box > 0 then [VERTICAL] else [])"
proof -
  define slack where "slack = content_width box - get_visual_width env content"
  have "slack < 0" using assms by (simp add: slack_def)
  then have "nat slack = 0" "nat (slack div 2) = 0" "nat (slack - slack div 2) = 0"
    by simp_all
  then show ?thesis
    by (simp add: render_content_line_def Let_def str_mul_def flip: slack_def)
qed

text \<open>
  C7, as amended. When the visual width of a content line exceeds \<open>content_width\<close>, the
  row is the left margin, the border glyph if any, the left padding, the line itself with
  no alignment space, the right padding and the border glyph if any: nothing is clamped,
  cut or rejected. Its visual width is \<open>margin_left\<close> plus the border columns plus the two
  paddings plus the width of the line; when \<open>border_width\<close> is at most one and
  \<open>margin_right\<close> is zero, that is \<open>total_width\<close> plus the overflow.
\<close>

theorem overflow_passes_through:
  assumes "wellformed box" "narrow_glyphs env"
    and "content_width box < get_visual_width env content"
  shows "render_content_line env box content al
           = str_mul SPACE (margin_left box) @ (if border_width box > 0 then [VERTICAL] else [])
             @ str_mul SPACE (padding_left box) @ content @ str_mul SPACE (padding_right box)
             @ (if border_width box > 0 then [VERTICAL] else [])
         \<and> get_visual_width env (render_content_line env box content al)
           = margin_left box + int (border_cols box) + padding_left box + padding_right box
             + get_visual_width env content
         \<and> (border_width box \<le> 1 \<and> margin_right box = 0 \<longrightarrow>
              get_visual_width env (render_content_line env box content al)
              = get_total_width box + (get_visual_width env content - content_width box))"
proof -
  have w: "get_visual_width env (render_content_line env box content al)
           = margin_left box + int (border_cols box) + padding_left box + padding_right box
             + get_visual_width env content"
    using assms(3) by (simp add: content_row_visual_width[OF assms(1,2)] max_def)
  have "border_width box \<le> 1 \<and> margin_right box = 0 \<longrightarrow>
          get_total_width box = row_width box"
    using assms(1) by (simp add: total_width_row_width)
  then have "border_width box \<le> 1 \<and> margin_right box = 0 \<longrightarrow>
          get_visual_width env (render_content_line env box content al)
          = get_total_width box + (get_visual_width env content - content_width box)"
    unfolding w by (auto simp: row_width_def get_interior_width_def)
  with w overflow_row[OF assms(3)] show ?thesis by blast
qed

theorem overflow_passes_through_witness:
  "wellformed sample_box \<and> narrow_glyphs env_wcwidth
   \<and> content_width (sample_box\<lparr>content_width := 3\<rparr>) < get_visual_width env_wcwidth ni_hao
   \<and> border_width sample_box \<le> 1 \<and> margin_right sample_box = 0
   \<and> render_content_line env_wcwidth (sample_box\<lparr>content_width := 3\<rparr>) ni_hao (ustr ''center'')
     = ustr ''  '' @ [VERTICAL] @ ustr '' '' @ ni_hao @ ustr ''  '' @ [VERTICAL]
   \<and> get_visual_width env_wcwidth
        (render_content_line env_wcwidth (sample_box\<lparr>content_width := 3\<rparr>) ni_hao (ustr ''center''))
     = get_total_width (sample_box\<lparr>content_width := 3\<rparr>) + 1"
proof -
  have wf: "wellformed (sample_box\<lparr>content_width := 3\<rparr>)" "wellformed sample_box"
    by (simp_all add: wellformed_def sample_box_def)
  have ov: "content_width (sample_box\<lparr>content_width := 3\<rparr>) < get_visual_width env_wcwidth ni_hao"
    by (simp add: visual_width_ni_hao)
  have b: "border_width (sample_box\<lparr>content_width := 3\<rparr>) \<le> 1
           \<and> margin_right (sample_box\<lparr>content_width := 3\<rparr>) = 0"
    by (simp add: sample_box_def)
  from overflow_passes_through[OF wf(1) narrow_glyphs_sample ov, of "ustr ''center''"] b
  have "render_content_line env_wcwidth (sample_box\<lparr>content_width := 3\<rparr>) ni_hao (ustr ''center'')
          = str_mul SPACE (margin_left (sample_box\<lparr>content_width := 3\<rparr>))
            @ (if border_width (sample_box\<lparr>content_width := 3\<rparr>) > 0 then [VERTICAL] else [])
            @ str_mul SPACE (padding_left (sample_box\<lparr>content_width := 3\<rparr>)) @ ni_hao
            @ str_mul SPACE (padding_right (sample_box\<lparr>content_width := 3\<rparr>))
            @ (if border_width (sample_box\<lparr>content_width := 3\<rparr>) > 0 then [VERTICAL] else [])"
    and "get_visual_width env_wcwidth
          (render_content_line env_wcwidth (sample_box\<lparr>content_width := 3\<rparr>) ni_hao (ustr ''center''))
         = get_total_width (sample_box\<lparr>content_width := 3\<rparr>)
           + (get_visual_width env_wcwidth ni_hao - content_width (sample_box\<lparr>content_width := 3\<rparr>))"
    by blast+
  then show ?thesis using wf ov b narrow_glyphs_sample
    by (simp add: visual_width_ni_hao sample_box_def str_mul_def ustr_def replicate_numeral_unfold)
qed

text \<open>
  With a border width of two the relation to the total width is lost: the row has width
  5, below the total width 6, although the line overflows by one column.
\<close>

lemma render_thick_row:
  "render_content_line env_wcwidth thick_box (ustr ''abc'') (ustr ''left'')
   = [VERTICAL, 97, 98, 99, VERTICAL]"
  by (simp add: render_content_line_def thick_box_def Let_def str_mul_def get_visual_width_def
      wcswidth_def env_wcwidth_def sample_wcwidth_def ustr_def)

theorem overflow_thick_border_counterexample:
  "wellformed thick_box
   \<and> get_visual_width env_wcwidth (ustr ''abc'') - content_width thick_box = 1
   \<and> get_visual_width env_wcwidth
        (render_content_line env_wcwidth thick_box (ustr ''abc'') (ustr ''left'')) = 5
   \<and> get_total_width thick_box = 6"
  unfolding render_thick_row
  by (simp add: wellformed_def thick_box_def get_visual_width_def wcswidth_def env_wcwidth_def
      sample_wcwidth_def ustr_def get_total_width_def calculate_dimensions_def)

section \<open>Validation of rendered boxes\<close>

lemma validate_lines_all_equal:
  "\<forall>l\<in>set ls. get_width env l = e \<Longrightarrow> validate_lines env e i ls st = st"
  by (induction ls arbitrary: i st) (auto simp: Let_def split: prod.splits)

lemma validate_lines_fst:
  "fst (validate_lines env e i ls (ok, out)) = (ok \<and> (\<forall>l\<in>set ls. get_width env l = e))"
  by (induction ls arbitrary: i ok out) (auto simp: Let_def)

lemma validate_box_valid_iff:
  "fst (validate_box env ls ew)
   \<longleftrightarrow> ls \<noteq> [] \<and> (\<forall>l\<in>set ls. get_width env l
                          = (case ew of None \<Rightarrow> get_width env (hd ls) | Some e \<Rightarrow> e))"
proof (cases ls)
  case Nil
  then show ?thesis by (simp add: validate_box_def)
next
  case (Cons first rest)
  define e where "e = (case ew of None \<Rightarrow> get_width env (hd ls) | Some e \<Rightarrow> e)"
  have e': "(case ew of None \<Rightarrow> get_width env first | Some e \<Rightarrow> e) = e"
    using Cons by (cases ew) (simp_all add: e_def)
  obtain ok out where r: "validate_lines env e 0 (first # rest) (True, []) = (ok, out)"
    by (cases "validate_lines env e 0 (first # rest) (True, [])")
  have "ok = (\<forall>l\<in>set ls. get_width env l = e)"
    using validate_lines_fst[of env e 0 ls True "[]"] r Cons by (simp del: validate_lines.simps)
  moreover have "fst (validate_box env ls ew) = ok"
    using Cons r by (simp add: validate_box_def Let_def e' del: validate_lines.simps)
  ultimately show ?thesis using Cons by (simp add: e_def)
qed

lemma validate_box_uniform:
  assumes "ls \<noteq> []" "\<forall>l\<in>set ls. get_width env l = w"
  shows "validate_box env ls None = (True, [AllValid (length ls) w])"
proof -
  obtain first rest where ls: "ls = first # rest" using assms(1) by (cases ls) auto
  then have f: "get_width env first = w" using assms(2) by simp
  have "validate_lines env w 0 ls (True, []) = (True, [])"
    using assms(2) by (rule validate_lines_all_equal)
  then show ?thesis using ls f by (simp add: validate_box_def Let_def)
qed

lemma body_row_get_width:
  assumes "wellformed box" "narrow_glyphs env"
    and "border_width box > 0 \<or> margin_right box = 0"
    and "\<forall>l\<in>set lines. strip_ansi l = l \<and> get_visual_width env l \<le> content_width box"
    and "row \<in> set (render_body env box lines al)"
  shows "get_width env row = row_width box"
proof -
  from body_cases[OF assms(5)] consider
    (border) "border_width box > 0" "row = top_border box \<or> row = bottom_border box"
    | (empty) "row = render_empty_line box"
    | (content) l where "l \<in> set lines" "row = render_content_line env box l al"
    by blast
  then show ?thesis
  proof cases
    case border
    then show ?thesis
      using assms(1,2) border_length[OF assms(1) border(1)]
      by (auto simp: get_width_frame_only border_frame)
  next
    case empty
    then show ?thesis
      using assms(1,2,3) empty_row_length[OF assms(1)]
      by (auto simp: get_width_frame_only empty_row_frame split: if_splits)
  next
    case content
    with assms(4) have l: "strip_ansi l = l" "get_visual_width env l \<le> content_width box"
      by blast+
    have "get_width env l = get_visual_width env l"
      using l(1) by (simp add: get_visual_width_strip)
    then show ?thesis
      unfolding content(2) content_row_get_width[OF assms(1,2)] using l(2)
      by (simp add: row_width_def get_interior_width_def)
  qed
qed

text \<open>
  C2, as amended. For a configuration with non-negative fields and no top or bottom margin
  that has a border, or else has no right margin and renders at least one row, and for
  content lines that hold no SGR escape sequence and are no wider than \<open>content_width\<close>,
  \<open>validate_box\<close> applied to the output of \<open>render\<close> with no expected width answers
  true, for every alignment; its report is the one success entry.
\<close>

theorem validate_render_round_trip:
  assumes "wellformed box" "narrow_glyphs env"
    and "margin_top box = 0" "margin_bottom box = 0"
    and "border_width box > 0 \<or> (margin_right box = 0 \<and> render env box lines al \<noteq> [])"
    and "\<forall>l\<in>set lines. strip_ansi l = l \<and> get_visual_width env l \<le> content_width box"
  shows "validate_box env (render env box lines al) None
         = (True, [AllValid (length (render env box lines al)) (row_width box)])"
proof (rule validate_box_uniform)
  have r: "render env box lines al = render_body env box lines al"
    using assms(3,4) by (simp add: render_split)
  show "render env box lines al \<noteq> []"
    using assms(5) by (auto simp: r render_body_def)
  show "\<forall>l\<in>set (render env box lines al). get_width env l = row_width box"
    unfolding r using assms(1,2,5,6)
    by (intro ballI body_row_get_width[where lines = lines and al = al]) auto
qed

theorem validate_render_round_trip_witness:
  "wellformed flush_box \<and> narrow_glyphs env_wcwidth
   \<and> margin_top flush_box = 0 \<and> margin_bottom flush_box = 0 \<and> border_width flush_box > 0
   \<and> strip_ansi ni_hao = ni_hao \<and> get_visual_width env_wcwidth ni_hao \<le> content_width flush_box
   \<and> strip_ansi (ustr ''abc'') = ustr ''abc''
   \<and> get_visual_width env_wcwidth (ustr ''abc'') \<le> content_width flush_box
   \<and> validate_box env_wcwidth (render env_wcwidth flush_box [ni_hao, ustr ''abc''] (ustr ''right'')) None
     = (True, [AllValid 5 13])"
proof -
  have h: "wellformed flush_box" "margin_top flush_box = 0" "margin_bottom flush_box = 0"
    "border_width flush_box > 0"
    by (simp_all add: flush_box_def wellformed_def sample_box_def)
  have s: "strip_ansi ni_hao = ni_hao" "strip_ansi (ustr ''abc'') = ustr ''abc''"
    by (simp_all add: ni_hao_def ustr_def)
  have w: "get_visual_width env_wcwidth ni_hao \<le> content_width flush_box"
    "get_visual_width env_wcwidth (ustr ''abc'') \<le> content_width flush_box"
    by (simp add: visual_width_ni_hao flush_box_def sample_box_def)
      (simp add: flush_box_def sample_box_def get_visual_width_def
        wcswidth_def env_wcwidth_def sample_wcwidth_def ustr_def)
  have ls: "\<forall>l\<in>set [ni_hao, ustr ''abc''].
              strip_ansi l = l \<and> get_visual_width env_wcwidth l \<le> content_width flush_box"
    using s w by simp
  have b: "border_width flush_box > 0
           \<or> (margin_right flush_box = 0
              \<and> render env_wcwidth flush_box [ni_hao, ustr ''abc''] (ustr ''right'') \<noteq> [])"
    using h(4) by simp
  have n: "length (render env_wcwidth flush_box [ni_hao, ustr ''abc''] (ustr ''right'')) = 5"
    by (simp add: render_length flush_box_def sample_box_def border_cols_def)
  have rw: "row_width flush_box = 13"
    by (simp add: row_width_def border_cols_def get_interior_width_def flush_box_def sample_box_def)
  from validate_render_round_trip[OF h(1) narrow_glyphs_sample h(2,3) b ls]
  show ?thesis unfolding n rw using h s w narrow_glyphs_sample by simp
qed

text \<open>
  The round trip does not hold with a top margin: the expected width is taken from the
  first row, the empty string, and the three rows of the box are reported as mismatches.
\<close>

theorem validate_render_margin_counterexample:
  "wellformed margin_box
   \<and> get_visual_width env_wcwidth (ustr ''Hi'') \<le> content_width margin_box
   \<and> validate_box env_wcwidth (render env_wcwidth margin_box [ustr ''Hi''] (ustr ''left'')) None
     = (False, [Mismatch 2 0 4 [TOP_LEFT, HORIZONTAL, HORIZONTAL, TOP_RIGHT] 4,
                Mismatch 3 0 4 [VERTICAL, 72, 105, VERTICAL] 4,
                Mismatch 4 0 4 [BOTTOM_LEFT, HORIZONTAL, HORIZONTAL, BOTTOM_RIGHT] 4])"
  unfolding render_margin_box
  by (simp add: wellformed_def margin_box_def get_visual_width_def get_width_def wcswidth_def
      env_wcwidth_def sample_wcwidth_def ustr_def validate_box_def Let_def)

text \<open>
  C4. \<open>validate_box\<close> is meant to be valid exactly when the input is not empty and
  every line has the expected visual width, the default being the visual width of the
  first line, with one report entry per mismatching line. The code decides this with its
  local helper \<open>get_width\<close> (\<open>validate_box_valid_iff\<close>), which does not strip escape
  sequences as the measurer \<open>get_visual_width\<close> does: the two lines below have the same
  visual width 2 and are reported as a mismatch of 11 against 2, with or without the
  \<open>wcwidth\<close> package.
\<close>

theorem validate_counts_escapes:
  "get_visual_width env_wcwidth red_hi = 2 \<and> get_visual_width env_wcwidth (ustr ''Hi'') = 2
   \<and> validate_box env_wcwidth [red_hi, ustr ''Hi''] None
     = (False, [Mismatch 2 11 2 (ustr ''Hi'') 2])
   \<and> validate_box env_wcwidth [red_hi, ustr ''Hi''] (Some 2)
     = (False, [Mismatch 1 2 11 red_hi 11])
   \<and> validate_box env_fallback [red_hi, ustr ''Hi''] None
     = (False, [Mismatch 2 11 2 (ustr ''Hi'') 2])"
  by (simp add: get_visual_width_def get_width_def wcswidth_def env_wcwidth_def env_fallback_def
      sample_wcwidth_def red_hi_def ustr_def is_sgr_param_def validate_box_def Let_def)

end
